theory Spec2Isabelle
  imports Complex_Main "HOL-Library.Word" "HOL-Library.AList"
begin

unbundle bit_operations_syntax

section \<open>Python values used by the notebook\<close>

text \<open>
  The notebook \<^verbatim>\<open>Using_Redis_for_embeddings_search.ipynb\<close> defines three functions
  (\<^verbatim>\<open>index_documents\<close>, \<^verbatim>\<open>search_redis\<close>, \<^verbatim>\<open>create_hybrid_field\<close>) and one
  provisioning cell. Python strings are \<^typ>\<open>string\<close>, Python integers are \<^typ>\<open>int\<close>.
  The floats of the embedding vectors are data: the notebook stores them and casts them to
  32-bit floats, and computes nothing with them; they are \<^typ>\<open>real\<close> here, and a 32-bit
  float is its IEEE-754 bit pattern, a \<^typ>\<open>32 word\<close>. With the scores the notebook does
  compute: \<^verbatim>\<open>float(s)\<close>, \<^verbatim>\<open>1 - x\<close>, \<^verbatim>\<open>round(x, 3)\<close> and the formatting of an f-string.
  These are operations of CPython on IEEE doubles, and the model takes them as they are,
  as parameters over a type \<open>'f\<close> of floats, without an arithmetic of its own.
\<close>

type_synonym byte = "8 word"
type_synonym float32 = "32 word"

datatype pyval = PInt int | PStr string | PList "real list" | PBytes "byte list"

datatype error =
    KeyError string
  | AttributeError string
  | ValueError
  | ResponseError string
  | ConnectionError
  | TimeoutError
  | KeyboardInterrupt
  | EmbeddingError
  | Unmodelled string

subsection \<open>\<^verbatim>\<open>str\<close> of an integer, as used by f-strings\<close>

definition digit_char :: "nat \<Rightarrow> char" where
  "digit_char d = char_of (48 + d)"

fun str_nat :: "nat \<Rightarrow> string" where
  "str_nat n = (if n < 10 then [digit_char n] else str_nat (n div 10) @ [digit_char (n mod 10)])"

declare str_nat.simps [simp del]

definition str_int :: "int \<Rightarrow> string" where
  "str_int i = (if i < 0 then CHR ''-'' # str_nat (nat (- i)) else str_nat (nat i))"

text \<open>
  \<^verbatim>\<open>str(v)\<close> for the values a key can be built from. The rendering of a list of floats
  or of a bytes object needs the float formatting of CPython and is outside this model.
\<close>

fun py_str :: "pyval \<Rightarrow> error + string" where
  "py_str (PInt i) = Inr (str_int i)"
| "py_str (PStr s) = Inr s"
| "py_str (PList xs) = Inl (Unmodelled ''str of a list'')"
| "py_str (PBytes bs) = Inl (Unmodelled ''str of bytes'')"

subsection \<open>numpy: 32-bit floats as bytes\<close>

text \<open>
  \<^verbatim>\<open>ndarray.tobytes()\<close> of a \<^verbatim>\<open>float32\<close> array writes the elements one after the other,
  each as its four bytes in the byte order of the machine, with no header.
  \<^verbatim>\<open>np.frombuffer(b, dtype=np.float32)\<close> reads them back and raises \<^verbatim>\<open>ValueError\<close> when the
  buffer is not a whole number of elements. The notebook only writes: \<open>frombuffer\<close> is the
  reader that the round-trip property of the specification speaks of.
\<close>

datatype byteorder = LittleEndian | BigEndian

definition word_bytes_le :: "float32 \<Rightarrow> byte list" where
  "word_bytes_le w = [ucast w, ucast (drop_bit 8 w), ucast (drop_bit 16 w), ucast (drop_bit 24 w)]"

definition word_bytes :: "byteorder \<Rightarrow> float32 \<Rightarrow> byte list" where
  "word_bytes bo w = (case bo of LittleEndian \<Rightarrow> word_bytes_le w | BigEndian \<Rightarrow> rev (word_bytes_le w))"

definition tobytes :: "byteorder \<Rightarrow> float32 list \<Rightarrow> byte list" where
  "tobytes bo ws = concat (map (word_bytes bo) ws)"

definition bytes_word_le :: "byte \<Rightarrow> byte \<Rightarrow> byte \<Rightarrow> byte \<Rightarrow> float32" where
  "bytes_word_le b0 b1 b2 b3 =
     ucast b0 OR push_bit 8 (ucast b1) OR push_bit 16 (ucast b2) OR push_bit 24 (ucast b3)"

definition bytes_word :: "byteorder \<Rightarrow> byte \<Rightarrow> byte \<Rightarrow> byte \<Rightarrow> byte \<Rightarrow> float32" where
  "bytes_word bo b0 b1 b2 b3 =
     (case bo of LittleEndian \<Rightarrow> bytes_word_le b0 b1 b2 b3 | BigEndian \<Rightarrow> bytes_word_le b3 b2 b1 b0)"

fun frombuffer :: "byteorder \<Rightarrow> byte list \<Rightarrow> error + float32 list" where
  "frombuffer bo [] = Inr []"
| "frombuffer bo (b0 # b1 # b2 # b3 # bs) =
     (case frombuffer bo bs of Inl e \<Rightarrow> Inl e | Inr ws \<Rightarrow> Inr (bytes_word bo b0 b1 b2 b3 # ws))"
| "frombuffer bo bs = Inl ValueError"

subsection \<open>Hybrid filter fragments\<close>

text \<open>
  \<^verbatim>\<open>def create_hybrid_field(field_name: str, value: str) -> str:
      return f'@\<close>\<^verbatim>\<open>{field_name}:"{value}"'\<close>

  (an f-string: the at sign, the field name, a colon, and the value between double quotes).
\<close>

definition create_hybrid_field :: "string \<Rightarrow> string \<Rightarrow> string" where
  "create_hybrid_field field_name val = ''@'' @ field_name @ '':\"'' @ val @ ''\"''"


section \<open>The world the notebook runs in\<close>

subsection \<open>The data frame and the record dictionaries\<close>

text \<open>
  A row of \<^verbatim>\<open>article_df\<close> after the loading cells: \<^verbatim>\<open>id\<close> is an \<^verbatim>\<open>int64\<close> column, the two
  vector columns hold lists of floats (\<^verbatim>\<open>literal_eval\<close>), \<^verbatim>\<open>vector_id\<close> was mapped through
  \<^verbatim>\<open>str\<close>, the others are strings. The fields carry the prefix \<open>col_\<close> because \<open>id\<close> and
  \<open>text\<close> are taken in Isabelle.
\<close>

record row =
  col_id :: int
  col_url :: string
  col_title :: string
  col_text :: string
  col_title_vector :: "real list"
  col_content_vector :: "real list"
  col_vector_id :: string

text \<open>
  A Python \<^verbatim>\<open>dict\<close> keeps its keys in insertion order and an assignment to a key that is
  present keeps the key's place: an association list with \<^const>\<open>AList.update\<close>.
\<close>

type_synonym dict = "(string \<times> pyval) list"

text \<open>One dictionary of \<^verbatim>\<open>DataFrame.to_dict("records")\<close>: column name to cell value.\<close>

definition to_dict :: "row \<Rightarrow> dict" where
  "to_dict r =
     [(''id'', PInt (col_id r)),
      (''url'', PStr (col_url r)),
      (''title'', PStr (col_title r)),
      (''text'', PStr (col_text r)),
      (''title_vector'', PList (col_title_vector r)),
      (''content_vector'', PList (col_content_vector r)),
      (''vector_id'', PStr (col_vector_id r))]"

text \<open>
  The mutable objects live in a heap, addressed by position; allocation appends. The data
  frame and the dictionaries made from it are separate objects, which is what decides
  whether an assignment to \<^verbatim>\<open>doc[...]\<close> reaches the caller's frame. A list of floats in a
  cell is shared by the frame and the dictionary made from its row, but the notebook never
  writes into a list (\<^verbatim>\<open>np.array\<close> copies it), so lists are plain values here.
\<close>

datatype pyobj = DataFrame "row list" | Dict dict

subsection \<open>The search index schema and queries (redis-py value objects)\<close>

datatype attr = AStr string | AInt int

datatype field = TextField string | VectorField string string "(string \<times> attr) list"

datatype index_type = HASH | JSON

record index_definition =
  prefix_of :: "string list"
  index_type_of :: index_type

record index_info =
  info_fields :: "field list"
  info_definition :: index_definition

text \<open>
  \<^verbatim>\<open>Query(s)\<close> starts with no return fields, no sorting and the page \<open>(0, 10)\<close>; each
  builder method sets its part and returns the query. \<^verbatim>\<open>sort_by(field)\<close> sorts ascending
  unless \<^verbatim>\<open>asc=False\<close> is given.
\<close>

record query =
  query_string :: string
  q_return_fields :: "string list"
  q_sortby :: "(string \<times> bool) option"
  q_offset :: int
  q_num :: int
  q_dialect :: "int option"

definition Query :: "string \<Rightarrow> query" where
  "Query s = \<lparr>query_string = s, q_return_fields = [], q_sortby = None,
              q_offset = 0, q_num = 10, q_dialect = None\<rparr>"

definition return_fields :: "string list \<Rightarrow> query \<Rightarrow> query" where
  "return_fields fs q = q\<lparr>q_return_fields := q_return_fields q @ fs\<rparr>"

definition sort_by :: "string \<Rightarrow> query \<Rightarrow> query" where
  "sort_by f q = q\<lparr>q_sortby := Some (f, True)\<rparr>"

definition paging :: "int \<Rightarrow> int \<Rightarrow> query \<Rightarrow> query" where
  "paging off n q = q\<lparr>q_offset := off, q_num := n\<rparr>"

definition dialect :: "int \<Rightarrow> query \<Rightarrow> query" where
  "dialect d q = q\<lparr>q_dialect := Some d\<rparr>"

text \<open>A result document: its key and the returned fields, read as attributes.\<close>

record document =
  document_id :: string
  attrs :: "(string \<times> string) list"

definition getattr :: "document \<Rightarrow> string \<Rightarrow> error + string" where
  "getattr d name = (case map_of (attrs d) name of None \<Rightarrow> Inl (AttributeError name) | Some v \<Rightarrow> Inr v)"

subsection \<open>What lies outside the notebook\<close>

text \<open>
  The external collaborators are parameters of the model, never computed here:
  the cast of a Python float to \<^verbatim>\<open>np.float32\<close> and the byte order of the machine; the
  embedding service; the float operations of CPython, on a type \<open>'f\<close> of floats:
  \<^verbatim>\<open>float(s)\<close> on a string (\<open>None\<close> is \<^verbatim>\<open>ValueError\<close>), \<^verbatim>\<open>1 - x\<close>, \<^verbatim>\<open>round(x, ndigits)\<close> and the
  text of a float in an f-string; and the search engine of the store, which answers a
  query over the stored hashes with documents or with an error.
\<close>

type_synonym keyspace = "string \<rightharpoonup> (string \<rightharpoonup> pyval)"

record 'f env =
  f32 :: "real \<Rightarrow> float32"
  native_order :: byteorder
  embed :: "string \<Rightarrow> string \<Rightarrow> error + real list"
  py_float :: "string \<Rightarrow> 'f option"
  one_minus :: "'f \<Rightarrow> 'f"
  py_round :: "'f \<Rightarrow> int \<Rightarrow> 'f"
  float_repr :: "'f \<Rightarrow> string"
  engine :: "keyspace \<Rightarrow> index_info \<Rightarrow> query \<Rightarrow> dict \<Rightarrow> error + document list"

subsection \<open>State\<close>

text \<open>
  \<open>calls\<close> is the sequence of commands the client has sent, whatever their outcome.
  \<open>faults\<close> schedules failures of the connection or the server: each command takes the
  head; \<open>Some e\<close> makes that command raise \<open>e\<close> with no effect on the store.
\<close>

datatype command =
    HSET string dict
  | FT_INFO string
  | FT_CREATE string "field list" index_definition
  | FT_SEARCH string query dict

record world =
  heap :: "pyobj list"
  hashes :: keyspace
  indices :: "string \<rightharpoonup> index_info"
  calls :: "command list"
  faults :: "error option list"
  stdout :: "string list"

type_synonym 'a action = "world \<Rightarrow> (error + 'a) \<times> world"

text \<open>Sequencing: an exception ends the run and keeps the effects made so far.\<close>

definition bind_action :: "'a action \<Rightarrow> ('a \<Rightarrow> 'b action) \<Rightarrow> 'b action" where
  "bind_action m f s = (case m s of (Inl e, s') \<Rightarrow> (Inl e, s') | (Inr x, s') \<Rightarrow> f x s')"

definition lift :: "error + 'a \<Rightarrow> 'a action" where
  "lift r s = (r, s)"

definition print :: "string \<Rightarrow> unit action" where
  "print line s = (Inr (), s\<lparr>stdout := stdout s @ [line]\<rparr>)"

subsection \<open>Dictionaries on the heap\<close>

definition getitem :: "nat \<Rightarrow> string \<Rightarrow> pyval action" where
  "getitem a k s =
     (if a < length (heap s) then
        (case heap s ! a of
           Dict d \<Rightarrow> (case map_of d k of None \<Rightarrow> (Inl (KeyError k), s) | Some v \<Rightarrow> (Inr v, s))
         | DataFrame rows \<Rightarrow> (Inl (Unmodelled ''subscript of a frame''), s))
      else (Inl (Unmodelled ''dangling reference''), s))"

definition setitem :: "nat \<Rightarrow> string \<Rightarrow> pyval \<Rightarrow> unit action" where
  "setitem a k v s =
     (if a < length (heap s) then
        (case heap s ! a of
           Dict d \<Rightarrow> (Inr (), s\<lparr>heap := (heap s)[a := Dict (AList.update k v d)]\<rparr>)
         | DataFrame rows \<Rightarrow> (Inl (Unmodelled ''assignment into a frame''), s))
      else (Inl (Unmodelled ''dangling reference''), s))"

definition get_dict :: "nat \<Rightarrow> dict action" where
  "get_dict a s =
     (if a < length (heap s) then
        (case heap s ! a of
           Dict d \<Rightarrow> (Inr d, s)
         | DataFrame rows \<Rightarrow> (Inl (Unmodelled ''a frame as a mapping''), s))
      else (Inl (Unmodelled ''dangling reference''), s))"

text \<open>
  \<^verbatim>\<open>documents.to_dict("records")\<close>: one new dictionary per row, in row order; the frame is
  read, not written.
\<close>

definition to_dict_records :: "nat \<Rightarrow> nat list action" where
  "to_dict_records documents s =
     (if documents < length (heap s) then
        (case heap s ! documents of
           DataFrame rows \<Rightarrow>
             (Inr [length (heap s) ..< length (heap s) + length rows],
              s\<lparr>heap := heap s @ map (\<lambda>r. Dict (to_dict r)) rows\<rparr>)
         | Dict d \<Rightarrow> (Inl (AttributeError ''to_dict''), s))
      else (Inl (Unmodelled ''dangling reference''), s))"

subsection \<open>The store, as the client sees it\<close>

text \<open>
  Redis is an external service. What follows is the part of its behaviour that the
  notebook's code depends on: a keyspace of hashes, a set of named indices, and commands
  that may fail for reasons of their own.
\<close>

definition send :: "command \<Rightarrow> unit action" where
  "send c s =
     (case faults s of
        [] \<Rightarrow> (Inr (), s\<lparr>calls := calls s @ [c]\<rparr>)
      | None # fs \<Rightarrow> (Inr (), s\<lparr>calls := calls s @ [c], faults := fs\<rparr>)
      | Some e # fs \<Rightarrow> (Inl e, s\<lparr>calls := calls s @ [c], faults := fs\<rparr>))"

text \<open>\<^verbatim>\<open>HSET key field value ...\<close> sets the given fields of the hash at \<open>key\<close>.\<close>

definition hset_effect :: "keyspace \<Rightarrow> string \<Rightarrow> dict \<Rightarrow> keyspace" where
  "hset_effect ks key mapping =
     ks(key \<mapsto> (case ks key of None \<Rightarrow> map_of mapping | Some h \<Rightarrow> h ++ map_of mapping))"

definition hset :: "string \<Rightarrow> dict \<Rightarrow> unit action" where
  "hset key mapping =
     bind_action (send (HSET key mapping)) (\<lambda>_ s.
       (Inr (), s\<lparr>hashes := hset_effect (hashes s) key mapping\<rparr>))"

text \<open>\<^verbatim>\<open>FT.INFO\<close> answers for an index that exists and is an error otherwise.\<close>

definition ft_info :: "string \<Rightarrow> index_info action" where
  "ft_info name =
     bind_action (send (FT_INFO name)) (\<lambda>_ s.
       (case indices s name of
          None \<Rightarrow> (Inl (ResponseError ''Unknown index name''), s)
        | Some i \<Rightarrow> (Inr i, s)))"

text \<open>\<^verbatim>\<open>FT.CREATE\<close> is an error for a name that is taken.\<close>

definition ft_create_index :: "string \<Rightarrow> field list \<Rightarrow> index_definition \<Rightarrow> unit action" where
  "ft_create_index name flds defn =
     bind_action (send (FT_CREATE name flds defn)) (\<lambda>_ s.
       (case indices s name of
          Some i \<Rightarrow> (Inl (ResponseError ''Index already exists''), s)
        | None \<Rightarrow> (Inr (), s\<lparr>indices := (indices s)(name \<mapsto>
                     \<lparr>info_fields = flds, info_definition = defn\<rparr>)\<rparr>)))"

definition ft_search :: "'f env \<Rightarrow> string \<Rightarrow> query \<Rightarrow> dict \<Rightarrow> document list action" where
  "ft_search E name q params =
     bind_action (send (FT_SEARCH name q params)) (\<lambda>_ s.
       (case indices s name of
          None \<Rightarrow> (Inl (ResponseError ''no such index''), s)
        | Some i \<Rightarrow> (engine E (hashes s) i q params, s)))"


section \<open>The notebook's code\<close>

text \<open>
  The notebook holds one connection, \<^verbatim>\<open>redis_client\<close>, and every function is called with
  it: the client argument is the store of the \<^typ>\<open>world\<close>.
\<close>

subsection \<open>Constants and schema cells\<close>

definition EMBEDDING_MODEL :: string where
  "EMBEDDING_MODEL = ''text-embedding-3-small''"

definition INDEX_NAME :: string where
  "INDEX_NAME = ''embeddings-index''"

definition PREFIX :: string where
  "PREFIX = ''doc''"

definition DISTANCE_METRIC :: string where
  "DISTANCE_METRIC = ''COSINE''"

text \<open>
  \<^verbatim>\<open>fields = [title, url, text, title_embedding, text_embedding]\<close>, with \<^verbatim>\<open>VECTOR_DIM\<close> and
  \<^verbatim>\<open>VECTOR_NUMBER\<close> read off the data frame by the constants cell.
\<close>

definition vector_attrs :: "int \<Rightarrow> int \<Rightarrow> (string \<times> attr) list" where
  "vector_attrs VECTOR_DIM VECTOR_NUMBER =
     [(''TYPE'', AStr ''FLOAT32''),
      (''DIM'', AInt VECTOR_DIM),
      (''DISTANCE_METRIC'', AStr DISTANCE_METRIC),
      (''INITIAL_CAP'', AInt VECTOR_NUMBER)]"

definition index_fields :: "int \<Rightarrow> int \<Rightarrow> field list" where
  "index_fields VECTOR_DIM VECTOR_NUMBER =
     [TextField ''title'', TextField ''url'', TextField ''text'',
      VectorField ''title_vector'' ''FLAT'' (vector_attrs VECTOR_DIM VECTOR_NUMBER),
      VectorField ''content_vector'' ''FLAT'' (vector_attrs VECTOR_DIM VECTOR_NUMBER)]"

subsection \<open>The provisioning cell\<close>

text \<open>
  \<^verbatim>\<open>try:
      redis_client.ft(INDEX_NAME).info()
      print("Index already exists")
  except:
      redis_client.ft(INDEX_NAME).create_index(
          fields = fields,
          definition = IndexDefinition(prefix=[PREFIX], index_type=IndexType.HASH))\<close>

  The bare \<^verbatim>\<open>except:\<close> takes every exception of the \<^verbatim>\<open>try\<close> block.
\<close>

definition ensure_index :: "string \<Rightarrow> field list \<Rightarrow> string \<Rightarrow> unit action" where
  "ensure_index index_name flds prefix s =
     (case ft_info index_name s of
        (Inr i, s') \<Rightarrow> print ''Index already exists'' s'
      | (Inl e, s') \<Rightarrow>
          ft_create_index index_name flds \<lparr>prefix_of = [prefix], index_type_of = HASH\<rparr> s')"

definition provisioning_cell :: "int \<Rightarrow> int \<Rightarrow> unit action" where
  "provisioning_cell VECTOR_DIM VECTOR_NUMBER =
     ensure_index INDEX_NAME (index_fields VECTOR_DIM VECTOR_NUMBER) PREFIX"

subsection \<open>\<^verbatim>\<open>index_documents\<close>\<close>

text \<open>
  \<^verbatim>\<open>np.array(v, dtype=np.float32).tobytes()\<close> for a list of floats. What numpy makes of a
  scalar, a string or bytes is outside this model.
\<close>

definition np_float32_bytes :: "'f env \<Rightarrow> pyval \<Rightarrow> error + byte list" where
  "np_float32_bytes E v =
     (case v of
        PList xs \<Rightarrow> Inr (tobytes (native_order E) (map (f32 E) xs))
      | PInt i \<Rightarrow> Inl (Unmodelled ''np.array of a scalar'')
      | PStr s \<Rightarrow> Inl (Unmodelled ''np.array of a string'')
      | PBytes bs \<Rightarrow> Inl (Unmodelled ''np.array of bytes''))"

text \<open>
  The body of the loop, for the dictionary at address \<open>doc\<close>:

  \<^verbatim>\<open>key = f"{prefix}:{str(doc['id'])}"
  title_embedding = np.array(doc["title_vector"], dtype=np.float32).tobytes()
  content_embedding = np.array(doc["content_vector"], dtype=np.float32).tobytes()
  doc["title_vector"] = title_embedding
  doc["content_vector"] = content_embedding
  client.hset(key, mapping = doc)\<close>
\<close>

definition index_doc :: "'f env \<Rightarrow> string \<Rightarrow> nat \<Rightarrow> unit action" where
  "index_doc E prefix doc =
     bind_action (getitem doc ''id'') (\<lambda>idv.
     bind_action (lift (py_str idv)) (\<lambda>ids.
     let key = prefix @ '':'' @ ids in
     bind_action (getitem doc ''title_vector'') (\<lambda>tv.
     bind_action (lift (np_float32_bytes E tv)) (\<lambda>title_embedding.
     bind_action (getitem doc ''content_vector'') (\<lambda>cv.
     bind_action (lift (np_float32_bytes E cv)) (\<lambda>content_embedding.
     bind_action (setitem doc ''title_vector'' (PBytes title_embedding)) (\<lambda>_.
     bind_action (setitem doc ''content_vector'' (PBytes content_embedding)) (\<lambda>_.
     bind_action (get_dict doc) (\<lambda>mapping.
     hset key mapping)))))))))"

fun index_loop :: "'f env \<Rightarrow> string \<Rightarrow> nat list \<Rightarrow> unit action" where
  "index_loop E prefix [] s = (Inr (), s)"
| "index_loop E prefix (doc # records) s =
     (case index_doc E prefix doc s of
        (Inl e, s') \<Rightarrow> (Inl e, s')
      | (Inr u, s') \<Rightarrow> index_loop E prefix records s')"

text \<open>
  \<^verbatim>\<open>def index_documents(client, prefix, documents):
      records = documents.to_dict("records")
      for doc in records: ...\<close>
\<close>

definition index_documents :: "'f env \<Rightarrow> string \<Rightarrow> nat \<Rightarrow> unit action" where
  "index_documents E prefix documents =
     bind_action (to_dict_records documents) (\<lambda>records. index_loop E prefix records)"

subsection \<open>\<^verbatim>\<open>search_redis\<close>\<close>

text \<open>
  \<^verbatim>\<open>for i, article in enumerate(results.docs):
      score = 1 - float(article.vector_score)
      print(f"{i}. {article.title} (Score: {round(score ,3) })")\<close>
\<close>

definition result_line :: "'f env \<Rightarrow> nat \<Rightarrow> string \<Rightarrow> 'f \<Rightarrow> string" where
  "result_line E i title_text score =
     str_nat i @ ''. '' @ title_text @ '' (Score: '' @ float_repr E (py_round E score 3) @ '')''"

fun print_results :: "'f env \<Rightarrow> nat \<Rightarrow> document list \<Rightarrow> unit action" where
  "print_results E i [] s = (Inr (), s)"
| "print_results E i (article # rest) s =
     (case getattr article ''vector_score'' of
        Inl e \<Rightarrow> (Inl e, s)
      | Inr v \<Rightarrow>
          (case py_float E v of
             None \<Rightarrow> (Inl ValueError, s)
           | Some x \<Rightarrow>
               (let score = one_minus E x in
                (case getattr article ''title'' of
                   Inl e \<Rightarrow> (Inl e, s)
                 | Inr t \<Rightarrow>
                     print_results E (i + 1) rest
                       (s\<lparr>stdout := stdout s @ [result_line E i t score]\<rparr>)))))"

text \<open>
  \<^verbatim>\<open>base_query = f'{hybrid_fields}=>[KNN {k} @\<close>\<^verbatim>\<open>{vector_field} $vector AS vector_score]'\<close>

  \<^verbatim>\<open>
  query = (Query(base_query).return_fields(*return_fields)
           .sort_by("vector_score").paging(0, k).dialect(2))
  params_dict = {"vector": np.array(embedded_query).astype(dtype=np.float32).tobytes()}\<close>
\<close>

definition base_query :: "string \<Rightarrow> int \<Rightarrow> string \<Rightarrow> string" where
  "base_query hybrid_fields k vector_field =
     hybrid_fields @ ''=>[KNN '' @ str_int k @ '' @'' @ vector_field @ '' $vector AS vector_score]''"

definition search_query :: "string list \<Rightarrow> string \<Rightarrow> int \<Rightarrow> string \<Rightarrow> query" where
  "search_query return_flds hybrid_fields k vector_field =
     dialect 2 (paging 0 k (sort_by ''vector_score''
       (return_fields return_flds (Query (base_query hybrid_fields k vector_field)))))"

definition params_dict :: "'f env \<Rightarrow> real list \<Rightarrow> dict" where
  "params_dict E embedded_query =
     [(''vector'', PBytes (tobytes (native_order E) (map (f32 E) embedded_query)))]"

text \<open>
  \<^verbatim>\<open>def search_redis(redis_client, user_query, index_name="embeddings-index",
                   vector_field="title_vector",
                   return_fields=["title", "url", "text", "vector_score"],
                   hybrid_fields="*", k=20) -> List[dict]\<close>

  The embedding is \<^verbatim>\<open>openai.Embedding.create(input=user_query, model=EMBEDDING_MODEL)\<close>; the
  function returns \<^verbatim>\<open>results.docs\<close>.
\<close>

definition search_redis ::
  "'f env \<Rightarrow> string \<Rightarrow> string \<Rightarrow> string \<Rightarrow> string list \<Rightarrow> string \<Rightarrow> int \<Rightarrow> document list action" where
  "search_redis E user_query index_name vector_field return_flds hybrid_fields k =
     bind_action (lift (embed E EMBEDDING_MODEL user_query)) (\<lambda>embedded_query.
     bind_action (ft_search E index_name
                    (search_query return_flds hybrid_fields k vector_field)
                    (params_dict E embedded_query)) (\<lambda>docs.
     bind_action (print_results E 0 docs) (\<lambda>_.
     lift (Inr docs))))"


section \<open>Vocabulary of the results\<close>

text \<open>
  The key and the mapping that \<^const>\<open>index_doc\<close> hands to \<^verbatim>\<open>hset\<close> for a row, and the
  relation "the heap differs at most at the addresses in \<open>A\<close>".
\<close>

definition storage_key :: "string \<Rightarrow> row \<Rightarrow> string" where
  "storage_key prefix r = prefix @ '':'' @ str_int (col_id r)"

definition stored_mapping :: "'f env \<Rightarrow> row \<Rightarrow> dict" where
  "stored_mapping E r =
     AList.update ''content_vector''
       (PBytes (tobytes (native_order E) (map (f32 E) (col_content_vector r))))
       (AList.update ''title_vector''
          (PBytes (tobytes (native_order E) (map (f32 E) (col_title_vector r))))
          (to_dict r))"

definition heap_frame :: "nat set \<Rightarrow> world \<Rightarrow> world \<Rightarrow> bool" where
  "heap_frame A s s' \<longleftrightarrow>
     length (heap s') = length (heap s) \<and> (\<forall>b < length (heap s). b \<notin> A \<longrightarrow> heap s' ! b = heap s ! b)"



definition knn_clause :: "int \<Rightarrow> string \<Rightarrow> string" where
  "knn_clause k vector_field = ''[KNN '' @ str_int k @ '' @'' @ vector_field @ '' $vector AS vector_score]''"

fun split_arrow :: "string \<Rightarrow> string \<times> string" where
  "split_arrow [] = ([], [])"
| "split_arrow [c] = ([c], [])"
| "split_arrow (c # c' # cs) =
     (if c = CHR ''='' \<and> c' = CHR ''>'' then ([], cs)
      else (case split_arrow (c' # cs) of (l, r) \<Rightarrow> (c # l, r)))"





text \<open>Reading a decimal numeral back, to show that \<^const>\<open>str_nat\<close> loses nothing.\<close>

definition digit_val :: "char \<Rightarrow> nat" where
  "digit_val c = of_char c - 48"

definition nat_of_str :: "string \<Rightarrow> nat" where
  "nat_of_str s = foldl (\<lambda>a c. 10 * a + digit_val c) 0 s"

section \<open>Scenarios\<close>

text \<open>Concrete worlds and collaborators on which the results below are exercised.\<close>

definition empty_world :: world where
  "empty_world = \<lparr>heap = [], hashes = Map.empty, indices = Map.empty, calls = [], faults = [], stdout = []\<rparr>"

text \<open>The index is there, and the next command loses its connection.\<close>

definition faulty_world :: world where
  "faulty_world = \<lparr>heap = [], hashes = Map.empty,
     indices = [INDEX_NAME \<mapsto> \<lparr>info_fields = index_fields 3 5,
                                  info_definition = \<lparr>prefix_of = [PREFIX], index_type_of = HASH\<rparr>\<rparr>],
     calls = [], faults = [Some ConnectionError], stdout = []\<rparr>"

text \<open>
  A frame of two rows on a store that answers every command. The cast agrees with IEEE-754
  binary32 on the values used (\<open>1.0\<close> is \<open>0x3F800000\<close>, \<open>0.5\<close> is \<open>0x3F000000\<close>, \<open>2.0\<close> is
  \<open>0x40000000\<close>); the engine returns two documents, cut to the page size asked for. A
  double is named by the text CPython prints for it, and the float operations are the
  tables of what CPython computes on the values used: \<^verbatim>\<open>1 - float('0.12345')\<close> is
  \<^verbatim>\<open>0.8765499999999999\<close>, and \<^verbatim>\<open>round\<close> of that to three places is \<^verbatim>\<open>0.877\<close>.
\<close>

definition demo_f32 :: "real \<Rightarrow> float32" where
  "demo_f32 x = (if x = 1 then 0x3F800000 else if x = 1 / 2 then 0x3F000000
                 else if x = 2 then 0x40000000 else 0)"

definition demo_float :: "string \<Rightarrow> string option" where
  "demo_float s = (if s = ''0'' then Some ''0.0'' else if s = ''0.12345'' then Some ''0.12345''
                   else None)"

definition demo_one_minus :: "string \<Rightarrow> string" where
  "demo_one_minus x = (if x = ''0.0'' then ''1.0''
                       else if x = ''0.12345'' then ''0.8765499999999999'' else ''nan'')"

definition demo_round :: "string \<Rightarrow> int \<Rightarrow> string" where
  "demo_round x ndigits = (if x = ''0.8765499999999999'' \<and> ndigits = 3 then ''0.877'' else x)"

definition demo_doc1 :: document where
  "demo_doc1 = \<lparr>document_id = ''doc:1'', attrs = [(''title'', ''April''), (''vector_score'', ''0'')]\<rparr>"

definition demo_doc2 :: document where
  "demo_doc2 = \<lparr>document_id = ''doc:12'', attrs = [(''title'', ''Art''), (''vector_score'', ''0.12345'')]\<rparr>"

definition demo_env :: "string env" where
  "demo_env = \<lparr>f32 = demo_f32, native_order = LittleEndian,
     embed = (\<lambda>model text. Inr [1, 0]),
     py_float = demo_float,
     one_minus = demo_one_minus,
     py_round = demo_round,
     float_repr = (\<lambda>x. x),
     engine = (\<lambda>ks i q params.
       if q_num q < 0 then Inl (ResponseError ''LIMIT'')
       else Inr (take (nat (q_num q)) [demo_doc1, demo_doc2]))\<rparr>"

definition demo_rows :: "row list" where
  "demo_rows =
     [\<lparr>col_id = 1, col_url = ''u/April'', col_title = ''April'', col_text = ''fourth month'',
       col_title_vector = [1, 0], col_content_vector = [0, 1 / 2], col_vector_id = ''0''\<rparr>,
      \<lparr>col_id = 12, col_url = ''u/Art'', col_title = ''Art'', col_text = ''creative activity'',
       col_title_vector = [0, 1], col_content_vector = [2, 1], col_vector_id = ''1''\<rparr>]"

definition demo_world :: world where
  "demo_world = \<lparr>heap = [DataFrame demo_rows], hashes = Map.empty,
     indices = [INDEX_NAME \<mapsto> \<lparr>info_fields = index_fields 2 2,
                                  info_definition = \<lparr>prefix_of = [PREFIX], index_type_of = HASH\<rparr>\<rparr>],
     calls = [], faults = [], stdout = []\<rparr>"

fun is_create :: "command \<Rightarrow> bool" where
  "is_create (FT_CREATE n f d) = True"
| "is_create c = False"

section \<open>Results\<close>

subsection \<open>Hybrid filter fragments\<close>

text \<open>
  Claim C10. For every field name and value, \<^const>\<open>create_hybrid_field\<close> returns the
  characters \<open>@\<close>, the field name, \<open>:"\<close>, the value and \<open>"\<close>, the value being copied as it
  is: the fragment has the quotes of its two arguments and two more. So a value with one
  double quote gives a fragment with an odd number of quotes, and a value can close the
  phrase itself and continue the expression: the fragment made for the single value
  \<^verbatim>\<open>x" | @title:"y\<close> is, character for character, the disjunction of the fragments for \<open>x\<close>
  and for \<open>y\<close>.
\<close>

theorem create_hybrid_field_verbatim:
  "create_hybrid_field field_name val = ''@'' @ field_name @ '':\"'' @ val @ ''\"''
  \<and> count_list (create_hybrid_field field_name val) (CHR 0x22)
      = 2 + count_list field_name (CHR 0x22) + count_list val (CHR 0x22)
  \<and> CHR 0x22 \<in> set ''a\"b''
  \<and> odd (count_list (create_hybrid_field ''title'' ''a\"b'') (CHR 0x22))
  \<and> create_hybrid_field ''title'' ''x\" | @title:\"y''
      = create_hybrid_field ''title'' ''x'' @ '' | '' @ create_hybrid_field ''title'' ''y''"
  by (simp add: create_hybrid_field_def)

subsection \<open>Index provisioning\<close>

lemma send_no_faults: "faults s = [] \<Longrightarrow> send c s = (Inr (), s\<lparr>calls := calls s @ [c]\<rparr>)"
  by (simp add: send_def)

lemma send_calls: "calls (snd (send c s)) = calls s @ [c]"
  by (simp add: send_def split: list.splits option.splits)

lemma send_indices: "indices (snd (send c s)) = indices s"
  by (simp add: send_def split: list.splits option.splits)

lemma ft_info_calls: "calls (snd (ft_info n s)) = calls s @ [FT_INFO n]"
  by (simp add: ft_info_def bind_action_def send_def split: list.splits option.splits)

lemma ft_create_index_calls: "calls (snd (ft_create_index n f d s)) = calls s @ [FT_CREATE n f d]"
  by (simp add: ft_create_index_def bind_action_def send_def split: list.splits option.splits)

text \<open>
  Claim C7. When the existence probe \<^verbatim>\<open>info()\<close> raises, whatever the error, the
  provisioning cell goes on to \<^verbatim>\<open>create_index\<close> on the state the probe left: its outcome is
  that of the creation, and the commands sent are the probe followed by the creation.
\<close>

theorem ensure_index_creates_on_any_probe_error:
  assumes "fst (ft_info index_name s) = Inl e"
  shows "ensure_index index_name flds prefix s =
           ft_create_index index_name flds \<lparr>prefix_of = [prefix], index_type_of = HASH\<rparr>
             (snd (ft_info index_name s))
         \<and> calls (snd (ensure_index index_name flds prefix s)) =
           calls s @ [FT_INFO index_name,
                      FT_CREATE index_name flds \<lparr>prefix_of = [prefix], index_type_of = HASH\<rparr>]"
proof -
  obtain s' where p: "ft_info index_name s = (Inl e, s')"
    using assms by (cases "ft_info index_name s") simp
  have c: "calls s' = calls s @ [FT_INFO index_name]"
    using ft_info_calls [of index_name s] p by simp
  have e: "ensure_index index_name flds prefix s =
      ft_create_index index_name flds \<lparr>prefix_of = [prefix], index_type_of = HASH\<rparr> s'"
    by (simp add: ensure_index_def p)
  show ?thesis
    using e c ft_create_index_calls [of index_name flds _ s'] by (simp add: p)
qed


text \<open>
  A lost connection with the index in place: the cell still sends the creation, and the
  store refuses it.
\<close>

theorem ensure_index_creates_on_any_probe_error_witness:
  "fst (ft_info INDEX_NAME faulty_world) = Inl ConnectionError
   \<and> fst (ensure_index INDEX_NAME (index_fields 3 5) PREFIX faulty_world)
       = Inl (ResponseError ''Index already exists'')
   \<and> calls (snd (ensure_index INDEX_NAME (index_fields 3 5) PREFIX faulty_world)) =
       [FT_INFO INDEX_NAME,
        FT_CREATE INDEX_NAME (index_fields 3 5) \<lparr>prefix_of = [PREFIX], index_type_of = HASH\<rparr>]"
proof -
  have h: "fst (ft_info INDEX_NAME faulty_world) = Inl ConnectionError"
    by (simp add: ft_info_def bind_action_def send_def faulty_world_def)
  have s: "snd (ft_info INDEX_NAME faulty_world) =
      faulty_world\<lparr>calls := [FT_INFO INDEX_NAME], faults := []\<rparr>"
    by (simp add: ft_info_def bind_action_def send_def faulty_world_def)
  show ?thesis
    using h ensure_index_creates_on_any_probe_error [OF h, of "index_fields 3 5" PREFIX]
    by (simp add: s) (simp add: ft_create_index_def bind_action_def send_def faulty_world_def)
qed

lemma ensure_index_absent:
  assumes "faults s = []" "indices s index_name = None"
  shows "ensure_index index_name flds prefix s =
     (Inr (), s\<lparr>calls := calls s @ [FT_INFO index_name,
                     FT_CREATE index_name flds \<lparr>prefix_of = [prefix], index_type_of = HASH\<rparr>],
               indices := (indices s)(index_name \<mapsto>
                     \<lparr>info_fields = flds,
                      info_definition = \<lparr>prefix_of = [prefix], index_type_of = HASH\<rparr>\<rparr>)\<rparr>)"
  using assms
  by (simp add: ensure_index_def ft_info_def ft_create_index_def bind_action_def send_def)

lemma ensure_index_present:
  assumes "faults s = []" "indices s index_name = Some i"
  shows "ensure_index index_name flds prefix s =
     (Inr (), s\<lparr>calls := calls s @ [FT_INFO index_name],
               stdout := stdout s @ [''Index already exists'']\<rparr>)"
  using assms
  by (simp add: ensure_index_def ft_info_def print_def bind_action_def send_def)

text \<open>
  Claim C6. On a store that answers every command, running the provisioning step twice
  with the same name, fields and prefix raises no error in either run; the second run
  leaves the indices as the first left them, the index of that name being the only one
  added; the second run sends the probe and nothing else, and at most one creation is sent
  over both runs.
\<close>

theorem ensure_index_twice:
  assumes "faults s = []"
  shows "fst (ensure_index index_name flds prefix s) = Inr ()
       \<and> fst (ensure_index index_name flds prefix (snd (ensure_index index_name flds prefix s))) = Inr ()
       \<and> indices (snd (ensure_index index_name flds prefix (snd (ensure_index index_name flds prefix s))))
           = indices (snd (ensure_index index_name flds prefix s))
       \<and> dom (indices (snd (ensure_index index_name flds prefix (snd (ensure_index index_name flds prefix s)))))
           = insert index_name (dom (indices s))
       \<and> calls (snd (ensure_index index_name flds prefix (snd (ensure_index index_name flds prefix s))))
           = calls (snd (ensure_index index_name flds prefix s)) @ [FT_INFO index_name]
       \<and> length (filter is_create (drop (length (calls s))
            (calls (snd (ensure_index index_name flds prefix (snd (ensure_index index_name flds prefix s)))))))
           \<le> 1"
proof (cases "indices s index_name")
  case None
  define s1 where "s1 = s\<lparr>calls := calls s @ [FT_INFO index_name,
                     FT_CREATE index_name flds \<lparr>prefix_of = [prefix], index_type_of = HASH\<rparr>],
               indices := (indices s)(index_name \<mapsto>
                     \<lparr>info_fields = flds,
                      info_definition = \<lparr>prefix_of = [prefix], index_type_of = HASH\<rparr>\<rparr>)\<rparr>"
  have e1: "ensure_index index_name flds prefix s = (Inr (), s1)"
    unfolding s1_def by (rule ensure_index_absent [OF assms None])
  have f1: "faults s1 = []" using assms by (simp add: s1_def)
  have i1: "indices s1 index_name = Some \<lparr>info_fields = flds,
                      info_definition = \<lparr>prefix_of = [prefix], index_type_of = HASH\<rparr>\<rparr>"
    by (simp add: s1_def)
  have e2: "ensure_index index_name flds prefix s1 =
     (Inr (), s1\<lparr>calls := calls s1 @ [FT_INFO index_name],
               stdout := stdout s1 @ [''Index already exists'']\<rparr>)"
    by (rule ensure_index_present [OF f1 i1])
  show ?thesis
    by (simp add: e1 e2) (simp add: s1_def)
next
  case (Some i)
  define s1 where "s1 = s\<lparr>calls := calls s @ [FT_INFO index_name],
               stdout := stdout s @ [''Index already exists'']\<rparr>"
  have e1: "ensure_index index_name flds prefix s = (Inr (), s1)"
    unfolding s1_def by (rule ensure_index_present [OF assms Some])
  have f1: "faults s1 = []" using assms by (simp add: s1_def)
  have i1: "indices s1 index_name = Some i" using Some by (simp add: s1_def)
  have e2: "ensure_index index_name flds prefix s1 =
     (Inr (), s1\<lparr>calls := calls s1 @ [FT_INFO index_name],
               stdout := stdout s1 @ [''Index already exists'']\<rparr>)"
    by (rule ensure_index_present [OF f1 i1])
  have d: "insert index_name (dom (indices s)) = dom (indices s)"
    using Some by auto
  show ?thesis
    by (simp add: e1 e2) (simp add: s1_def d)
qed

text \<open>The notebook's cell, twice, on an empty store.\<close>

theorem ensure_index_twice_witness:
  "faults empty_world = []
   \<and> fst (provisioning_cell 3 5 empty_world) = Inr ()
   \<and> fst (provisioning_cell 3 5 (snd (provisioning_cell 3 5 empty_world))) = Inr ()
   \<and> dom (indices (snd (provisioning_cell 3 5 (snd (provisioning_cell 3 5 empty_world))))) = {INDEX_NAME}
   \<and> calls (snd (provisioning_cell 3 5 (snd (provisioning_cell 3 5 empty_world))))
       = [FT_INFO INDEX_NAME,
          FT_CREATE INDEX_NAME (index_fields 3 5) \<lparr>prefix_of = [PREFIX], index_type_of = HASH\<rparr>,
          FT_INFO INDEX_NAME]"
proof -
  have h: "faults empty_world = []" by (simp add: empty_world_def)
  have i: "indices empty_world INDEX_NAME = None" by (simp add: empty_world_def)
  have c: "calls (snd (ensure_index INDEX_NAME (index_fields 3 5) PREFIX empty_world)) =
      [FT_INFO INDEX_NAME,
       FT_CREATE INDEX_NAME (index_fields 3 5) \<lparr>prefix_of = [PREFIX], index_type_of = HASH\<rparr>]"
    by (simp add: ensure_index_absent [OF h i]) (simp add: empty_world_def)
  have d: "dom (indices empty_world) = {}" by (simp add: empty_world_def)
  note t = ensure_index_twice [OF h, of INDEX_NAME "index_fields 3 5" PREFIX]
  from t have r1: "fst (ensure_index INDEX_NAME (index_fields 3 5) PREFIX empty_world) = Inr ()"
    by (rule conjunct1)
  from t have r2: "fst (ensure_index INDEX_NAME (index_fields 3 5) PREFIX
      (snd (ensure_index INDEX_NAME (index_fields 3 5) PREFIX empty_world))) = Inr ()"
    by blast
  from t have d2: "dom (indices (snd (ensure_index INDEX_NAME (index_fields 3 5) PREFIX
      (snd (ensure_index INDEX_NAME (index_fields 3 5) PREFIX empty_world))))) =
      insert INDEX_NAME (dom (indices empty_world))"
    by blast
  from t have c2: "calls (snd (ensure_index INDEX_NAME (index_fields 3 5) PREFIX
      (snd (ensure_index INDEX_NAME (index_fields 3 5) PREFIX empty_world)))) =
      calls (snd (ensure_index INDEX_NAME (index_fields 3 5) PREFIX empty_world)) @ [FT_INFO INDEX_NAME]"
    by blast
  show ?thesis
    unfolding provisioning_cell_def
    by (intro conjI) (simp_all only: h r1 r2 d2 d c2 c append.simps)
qed

subsection \<open>Ingestion: which objects change\<close>

lemma heap_frame_refl: "heap_frame A s s"
  by (simp add: heap_frame_def)

lemma heap_frame_trans: "heap_frame A s s' \<Longrightarrow> heap_frame A s' s'' \<Longrightarrow> heap_frame A s s''"
  by (simp add: heap_frame_def)

lemma heap_frame_mono: "heap_frame A s s' \<Longrightarrow> A \<subseteq> B \<Longrightarrow> heap_frame B s s'"
  by (auto simp: heap_frame_def)

lemma bind_frame:
  assumes "\<And>s. heap_frame A s (snd (m s))" "\<And>x s. heap_frame A s (snd (f x s))"
  shows "heap_frame A s (snd (bind_action m f s))"
proof (cases "m s")
  case (Pair r s1)
  have 1: "heap_frame A s s1" using assms(1) [of s] Pair by simp
  show ?thesis
  proof (cases r)
    case (Inl e)
    then show ?thesis using 1 Pair by (simp add: bind_action_def)
  next
    case (Inr x)
    have "heap_frame A s1 (snd (f x s1))" by (rule assms(2))
    then show ?thesis using 1 Pair Inr heap_frame_trans by (auto simp add: bind_action_def)
  qed
qed

lemma lift_frame: "heap_frame A s (snd (lift r s))"
  by (simp add: lift_def heap_frame_def)

lemma getitem_frame: "heap_frame A s (snd (getitem a k s))"
  by (simp add: getitem_def heap_frame_def split: pyobj.splits option.splits)

lemma get_dict_frame: "heap_frame A s (snd (get_dict a s))"
  by (simp add: get_dict_def heap_frame_def split: pyobj.splits)

lemma setitem_frame: "heap_frame {a} s (snd (setitem a k v s))"
  by (simp add: setitem_def heap_frame_def split: pyobj.splits)

lemma send_frame: "heap_frame A s (snd (send c s))"
  by (simp add: send_def heap_frame_def split: list.splits option.splits)

lemma hset_frame: "heap_frame A s (snd (hset key m s))"
  unfolding hset_def
  by (rule bind_frame) (simp_all add: send_frame, simp add: heap_frame_def)

lemma index_doc_frame: "heap_frame {a} s (snd (index_doc E prefix a s))"
  unfolding index_doc_def Let_def
  by (intro bind_frame lift_frame getitem_frame get_dict_frame setitem_frame hset_frame)

lemma index_loop_frame: "heap_frame (set as) s (snd (index_loop E prefix as s))"
proof (induction as arbitrary: s)
  case Nil
  show ?case by (simp add: heap_frame_refl)
next
  case (Cons a as)
  obtain r s1 where p: "index_doc E prefix a s = (r, s1)" by (cases "index_doc E prefix a s")
  have 1: "heap_frame (set (a # as)) s s1"
    using index_doc_frame [of a s E prefix] p heap_frame_mono [of "{a}" s s1 "set (a # as)"] by simp
  show ?case
  proof (cases r)
    case (Inl e)
    then show ?thesis using 1 p by simp
  next
    case (Inr u)
    have "heap_frame (set (a # as)) s1 (snd (index_loop E prefix as s1))"
      using Cons.IH [of s1] heap_frame_mono [of "set as" _ _ "set (a # as)"] by auto
    then show ?thesis using 1 p Inr heap_frame_trans by auto
  qed
qed

lemma index_documents_old_heap:
  "take (length (heap s)) (heap (snd (index_documents E prefix documents s))) = heap s"
proof (cases "documents < length (heap s)")
  case False
  then show ?thesis by (simp add: index_documents_def bind_action_def to_dict_records_def)
next
  case True
  show ?thesis
  proof (cases "heap s ! documents")
    case (Dict d)
    then show ?thesis using True by (simp add: index_documents_def bind_action_def to_dict_records_def)
  next
    case (DataFrame rows)
    define s1 where "s1 = s\<lparr>heap := heap s @ map (\<lambda>r. Dict (to_dict r)) rows\<rparr>"
    define recs where "recs = [length (heap s) ..< length (heap s) + length rows]"
    have e: "index_documents E prefix documents s = index_loop E prefix recs s1"
      using True DataFrame by (simp add: index_documents_def bind_action_def to_dict_records_def s1_def recs_def)
    have f: "heap_frame (set recs) s1 (snd (index_loop E prefix recs s1))"
      by (rule index_loop_frame)
    have l: "length (heap s) \<le> length (heap (snd (index_loop E prefix recs s1)))"
      using f by (simp add: heap_frame_def s1_def)
    have "\<And>b. b < length (heap s) \<Longrightarrow> heap (snd (index_loop E prefix recs s1)) ! b = heap s ! b"
    proof -
      fix b assume b: "b < length (heap s)"
      then have "b \<notin> set recs" "b < length (heap s1)" by (simp_all add: recs_def s1_def)
      then have "heap (snd (index_loop E prefix recs s1)) ! b = heap s1 ! b"
        using f by (simp add: heap_frame_def)
      then show "heap (snd (index_loop E prefix recs s1)) ! b = heap s ! b"
        using b by (simp add: s1_def nth_append)
    qed
    then show ?thesis using l by (simp add: e list_eq_iff_nth_eq)
  qed
qed


lemma index_doc_step:
  assumes "a < length (heap s)" "heap s ! a = Dict (to_dict r)"
  shows "index_doc E prefix a s =
     hset (storage_key prefix r) (stored_mapping E r)
       (s\<lparr>heap := (heap s)[a := Dict (stored_mapping E r)]\<rparr>)"
  using assms
  by (simp add: index_doc_def bind_action_def getitem_def setitem_def get_dict_def lift_def
      to_dict_def np_float32_bytes_def storage_key_def stored_mapping_def)

lemma hset_calls: "calls (snd (hset key m s)) = calls s @ [HSET key m]"
  by (simp add: hset_def bind_action_def send_def split: list.splits option.splits)

lemma hset_heap: "heap (snd (hset key m s)) = heap s"
  by (simp add: hset_def bind_action_def send_def split: list.splits option.splits)

lemma hset_faults: "faults (snd (hset key m s)) = tl (faults s)"
  by (simp add: hset_def bind_action_def send_def split: list.splits option.splits)

lemma hset_hashes:
  "fst (hset key m s) = Inr () \<Longrightarrow> hashes (snd (hset key m s)) = hset_effect (hashes s) key m"
  by (simp add: hset_def bind_action_def send_def split: list.splits option.splits)


lemma index_loop_trace:
  assumes "list_all2 (\<lambda>a r. a < length (heap s) \<and> heap s ! a = Dict (to_dict r)) as rows"
    and "distinct as"
    and "index_loop E prefix as s = (Inr (), s')"
  shows "calls s' = calls s @ map (\<lambda>r. HSET (storage_key prefix r) (stored_mapping E r)) rows
       \<and> list_all2 (\<lambda>a r. heap s' ! a = Dict (stored_mapping E r)) as rows
       \<and> hashes s' = foldl (\<lambda>ks r. hset_effect ks (storage_key prefix r) (stored_mapping E r))
                         (hashes s) rows"
  using assms
proof (induction as arbitrary: rows s)
  case Nil
  then show ?case by simp
next
  case (Cons a as)
  from Cons.prems(1) obtain r rows' where rows: "rows = r # rows'"
    and a: "a < length (heap s)" "heap s ! a = Dict (to_dict r)"
    and rest: "list_all2 (\<lambda>a r. a < length (heap s) \<and> heap s ! a = Dict (to_dict r)) as rows'"
    by (auto simp: list_all2_Cons1)
  define s1 where "s1 = s\<lparr>heap := (heap s)[a := Dict (stored_mapping E r)]\<rparr>"
  define key where "key = storage_key prefix r"
  define m where "m = stored_mapping E r"
  have step: "index_doc E prefix a s = hset key m s1"
    unfolding s1_def key_def m_def by (rule index_doc_step [OF a])
  obtain res s2 where h: "hset key m s1 = (res, s2)" by (cases "hset key m s1")
  have res: "res = Inr ()" and loop: "index_loop E prefix as s2 = (Inr (), s')"
    using Cons.prems(3) step h by (auto split: sum.splits)
  have heap2: "heap s2 = (heap s)[a := Dict m]"
    using hset_heap [of key m s1] h by (simp add: s1_def m_def)
  have calls2: "calls s2 = calls s @ [HSET key m]"
    using hset_calls [of key m s1] h by (simp add: s1_def)
  have notin: "a \<notin> set as" and dist: "distinct as" using Cons.prems(2) by simp_all
  have rest2: "list_all2 (\<lambda>a r. a < length (heap s2) \<and> heap s2 ! a = Dict (to_dict r)) as rows'"
  proof (rule list.rel_mono_strong [OF rest])
    fix b r' assume "b \<in> set as" "r' \<in> set rows'"
      "b < length (heap s) \<and> heap s ! b = Dict (to_dict r')"
    moreover from this notin have "b \<noteq> a" by blast
    ultimately show "b < length (heap s2) \<and> heap s2 ! b = Dict (to_dict r')"
      by (simp add: heap2)
  qed
  have hashes2: "hashes s2 = hset_effect (hashes s) key m"
    using hset_hashes [of key m s1] h res by (simp add: s1_def)
  have ih: "calls s' = calls s2 @ map (\<lambda>r. HSET (storage_key prefix r) (stored_mapping E r)) rows'
       \<and> list_all2 (\<lambda>a r. heap s' ! a = Dict (stored_mapping E r)) as rows'
       \<and> hashes s' = foldl (\<lambda>ks r. hset_effect ks (storage_key prefix r) (stored_mapping E r))
                         (hashes s2) rows'"
    by (rule Cons.IH [OF rest2 dist loop])
  have fr: "heap_frame (set as) s2 s'"
    using index_loop_frame [of as s2 E prefix] loop by simp
  have "heap s' ! a = heap s2 ! a"
    using fr notin a(1) by (simp add: heap_frame_def heap2)
  then have here: "heap s' ! a = Dict (stored_mapping E r)"
    using a(1) by (simp add: heap2 m_def)
  show ?case
    using ih here by (simp add: rows calls2 hashes2 key_def m_def)
qed


lemma hset_no_faults:
  "faults s = [] \<Longrightarrow> fst (hset key m s) = Inr () \<and> faults (snd (hset key m s)) = []"
  by (simp add: hset_def bind_action_def send_def)

lemma index_loop_total:
  assumes "list_all2 (\<lambda>a r. a < length (heap s) \<and> heap s ! a = Dict (to_dict r)) as rows"
    and "distinct as"
    and "faults s = []"
  shows "fst (index_loop E prefix as s) = Inr ()"
  using assms
proof (induction as arbitrary: rows s)
  case Nil
  then show ?case by simp
next
  case (Cons a as)
  from Cons.prems(1) obtain r rows' where rows: "rows = r # rows'"
    and a: "a < length (heap s)" "heap s ! a = Dict (to_dict r)"
    and rest: "list_all2 (\<lambda>a r. a < length (heap s) \<and> heap s ! a = Dict (to_dict r)) as rows'"
    by (auto simp: list_all2_Cons1)
  define s1 where "s1 = s\<lparr>heap := (heap s)[a := Dict (stored_mapping E r)]\<rparr>"
  define s2 where "s2 = snd (hset (storage_key prefix r) (stored_mapping E r) s1)"
  have f1: "faults s1 = []" using Cons.prems(3) by (simp add: s1_def)
  have step: "index_doc E prefix a s = (Inr (), s2)"
    using index_doc_step [OF a, of E prefix] hset_no_faults [OF f1, of "storage_key prefix r" "stored_mapping E r"]
    by (simp add: s1_def s2_def prod_eq_iff)
  have f2: "faults s2 = []"
    using hset_no_faults [OF f1] by (simp add: s2_def)
  have heap2: "heap s2 = (heap s)[a := Dict (stored_mapping E r)]"
    by (simp add: s2_def hset_heap s1_def)
  have notin: "a \<notin> set as" and dist: "distinct as" using Cons.prems(2) by simp_all
  have rest2: "list_all2 (\<lambda>a r. a < length (heap s2) \<and> heap s2 ! a = Dict (to_dict r)) as rows'"
  proof (rule list.rel_mono_strong [OF rest])
    fix b r' assume "b \<in> set as" "r' \<in> set rows'"
      "b < length (heap s) \<and> heap s ! b = Dict (to_dict r')"
    moreover from this notin have "b \<noteq> a" by blast
    ultimately show "b < length (heap s2) \<and> heap s2 ! b = Dict (to_dict r')"
      by (simp add: heap2)
  qed
  show ?case
    using Cons.IH [OF rest2 dist f2] by (simp add: step)
qed

lemma fresh_records:
  assumes "heap s1 = heap s @ map (\<lambda>r. Dict (to_dict r)) rows"
  shows "list_all2 (\<lambda>a r. a < length (heap s1) \<and> heap s1 ! a = Dict (to_dict r))
           [length (heap s) ..< length (heap s) + length rows] rows"
  by (simp add: list_all2_conv_all_nth assms nth_append)

lemma index_documents_unfold:
  assumes "documents < length (heap s)" "heap s ! documents = DataFrame rows"
  shows "index_documents E prefix documents s =
     index_loop E prefix [length (heap s) ..< length (heap s) + length rows]
       (s\<lparr>heap := heap s @ map (\<lambda>r. Dict (to_dict r)) rows\<rparr>)"
  using assms by (simp add: index_documents_def bind_action_def to_dict_records_def)

lemma index_documents_total:
  assumes "documents < length (heap s)" "heap s ! documents = DataFrame rows" "faults s = []"
  shows "fst (index_documents E prefix documents s) = Inr ()"
proof -
  define s1 where "s1 = s\<lparr>heap := heap s @ map (\<lambda>r. Dict (to_dict r)) rows\<rparr>"
  have h: "heap s1 = heap s @ map (\<lambda>r. Dict (to_dict r)) rows" by (simp add: s1_def)
  have f: "faults s1 = []" using assms(3) by (simp add: s1_def)
  show ?thesis
    unfolding index_documents_unfold [OF assms(1,2)] s1_def [symmetric]
    by (rule index_loop_total [OF fresh_records [OF h] distinct_upt f])
qed

lemma index_documents_trace:
  assumes "documents < length (heap s)" "heap s ! documents = DataFrame rows"
    and "index_documents E prefix documents s = (Inr (), s')"
  shows "calls s' = calls s @ map (\<lambda>r. HSET (storage_key prefix r) (stored_mapping E r)) rows"
    and "heap s' = heap s @ map (\<lambda>r. Dict (stored_mapping E r)) rows"
    and "hashes s' = foldl (\<lambda>ks r. hset_effect ks (storage_key prefix r) (stored_mapping E r))
                       (hashes s) rows"
proof -
  define s1 where "s1 = s\<lparr>heap := heap s @ map (\<lambda>r. Dict (to_dict r)) rows\<rparr>"
  define recs where "recs = [length (heap s) ..< length (heap s) + length rows]"
  have h: "heap s1 = heap s @ map (\<lambda>r. Dict (to_dict r)) rows" by (simp add: s1_def)
  have loop: "index_loop E prefix recs s1 = (Inr (), s')"
    using assms(3) unfolding index_documents_unfold [OF assms(1,2)] s1_def recs_def .
  have t: "calls s' = calls s1 @ map (\<lambda>r. HSET (storage_key prefix r) (stored_mapping E r)) rows
       \<and> list_all2 (\<lambda>a r. heap s' ! a = Dict (stored_mapping E r)) recs rows
       \<and> hashes s' = foldl (\<lambda>ks r. hset_effect ks (storage_key prefix r) (stored_mapping E r))
                         (hashes s1) rows"
    unfolding recs_def
    by (rule index_loop_trace [OF fresh_records [OF h] distinct_upt loop [unfolded recs_def]])
  then show "calls s' = calls s @ map (\<lambda>r. HSET (storage_key prefix r) (stored_mapping E r)) rows"
    by (simp add: s1_def)
  from t show "hashes s' = foldl (\<lambda>ks r. hset_effect ks (storage_key prefix r) (stored_mapping E r))
                       (hashes s) rows"
    by (simp add: s1_def)
  have old: "take (length (heap s)) (heap s') = heap s"
    using index_documents_old_heap [of s E prefix documents] assms(3) by simp
  have len: "length (heap s') = length (heap s) + length rows"
    using index_loop_frame [of recs s1 E prefix] loop by (simp add: heap_frame_def s1_def)
  have new: "\<And>i. i < length rows \<Longrightarrow> heap s' ! (length (heap s) + i) = Dict (stored_mapping E (rows ! i))"
    using t by (simp add: list_all2_conv_all_nth recs_def)
  show "heap s' = heap s @ map (\<lambda>r. Dict (stored_mapping E r)) rows"
  proof (rule nth_equalityI)
    show "length (heap s') = length (heap s @ map (\<lambda>r. Dict (stored_mapping E r)) rows)"
      by (simp add: len)
  next
    fix i assume i: "i < length (heap s')"
    show "heap s' ! i = (heap s @ map (\<lambda>r. Dict (stored_mapping E r)) rows) ! i"
    proof (cases "i < length (heap s)")
      case True
      then have "heap s' ! i = take (length (heap s)) (heap s') ! i" by simp
      then show ?thesis using True by (simp add: old nth_append)
    next
      case False
      then obtain j where j: "i = length (heap s) + j" "j < length rows"
        using i len by (metis add_diff_inverse_nat nat_add_left_cancel_less)
      then show ?thesis using new [of j] by (simp add: nth_append)
    qed
  qed
qed


subsection \<open>Decimal text of integers and storage keys\<close>


lemma digit_val_char: "d < 10 \<Longrightarrow> digit_val (digit_char d) = d"
  by (simp add: digit_val_def digit_char_def)

lemma nat_of_str_snoc: "nat_of_str (s @ [c]) = 10 * nat_of_str s + digit_val c"
  by (simp add: nat_of_str_def)

lemma nat_of_str_nat: "nat_of_str (str_nat n) = n"
proof (induction n rule: str_nat.induct)
  case (1 n)
  show ?case
  proof (cases "n < 10")
    case True
    then show ?thesis
      by (subst str_nat.simps) (simp add: nat_of_str_def digit_val_char)
  next
    case False
    then have "nat_of_str (str_nat (n div 10)) = n div 10" using 1 by simp
    with False show ?thesis
      by (subst str_nat.simps) (simp add: nat_of_str_snoc digit_val_char)
  qed
qed

lemma str_nat_inj: "str_nat m = str_nat n \<Longrightarrow> m = n"
proof -
  assume "str_nat m = str_nat n"
  then have "nat_of_str (str_nat m) = nat_of_str (str_nat n)" by (rule arg_cong)
  then show "m = n" by (simp only: nat_of_str_nat)
qed

lemma digit_char_not_minus: "d < 10 \<Longrightarrow> digit_char d \<noteq> CHR ''-''"
proof
  assume d: "d < 10" and e: "digit_char d = CHR ''-''"
  from d have "of_char (digit_char d) = 48 + d" by (simp add: digit_char_def)
  with e have "of_char (CHR ''-'') = 48 + d" by simp
  then show False by simp
qed

lemma str_nat_hd: "\<exists>d cs. d < 10 \<and> str_nat n = digit_char d # cs"
proof (induction n rule: str_nat.induct)
  case (1 n)
  show ?case
  proof (cases "n < 10")
    case True
    then show ?thesis by (subst str_nat.simps) auto
  next
    case False
    then obtain d cs where "d < 10" "str_nat (n div 10) = digit_char d # cs" using 1 by blast
    with False show ?thesis by (subst str_nat.simps) auto
  qed
qed

lemma str_nat_no_minus: "str_nat n \<noteq> CHR ''-'' # cs"
proof
  assume e: "str_nat n = CHR ''-'' # cs"
  obtain d ds where d: "d < 10" "str_nat n = digit_char d # ds" using str_nat_hd [of n] by blast
  from e d(2) have "digit_char d = CHR ''-''" by simp
  with digit_char_not_minus [OF d(1)] show False by blast
qed

lemma str_int_inj: "str_int i = str_int j \<Longrightarrow> i = j"
proof -
  assume e: "str_int i = str_int j"
  consider "i < 0" "j < 0" | "i < 0" "0 \<le> j" | "0 \<le> i" "j < 0" | "0 \<le> i" "0 \<le> j" by linarith
  then show "i = j"
  proof cases
    case 1
    with e have "nat (- i) = nat (- j)" by (simp add: str_int_def str_nat_inj)
    with 1 show ?thesis by simp
  next
    case 2
    with e have "str_nat (nat j) = CHR ''-'' # str_nat (nat (- i))" by (simp add: str_int_def)
    then show ?thesis using str_nat_no_minus by blast
  next
    case 3
    with e have "str_nat (nat i) = CHR ''-'' # str_nat (nat (- j))" by (simp add: str_int_def)
    then show ?thesis using str_nat_no_minus by blast
  next
    case 4
    with e have "nat i = nat j" by (simp add: str_int_def str_nat_inj)
    with 4 show ?thesis by simp
  qed
qed

lemma storage_key_inj: "storage_key prefix r = storage_key prefix r' \<longleftrightarrow> col_id r = col_id r'"
  using str_int_inj by (auto simp: storage_key_def)

lemma storage_key_distinct:
  "distinct (map col_id rows) \<Longrightarrow> distinct (map (storage_key prefix) rows)"
  by (induction rows) (auto simp: storage_key_inj)


subsection \<open>Bytes of 32-bit floats\<close>

lemma bytes_word_le_bytes:
  "bytes_word_le (ucast w) (ucast (drop_bit 8 w)) (ucast (drop_bit 16 w)) (ucast (drop_bit 24 w)) = w"
proof (rule bit_word_eqI)
  fix n assume n: "n < LENGTH(32)"
  consider "n < 8" | "8 \<le> n" "n < 16" | "16 \<le> n" "n < 24" | "24 \<le> n" "n < 32"
    using n by fastforce
  then show "bit (bytes_word_le (ucast w) (ucast (drop_bit 8 w)) (ucast (drop_bit 16 w))
                 (ucast (drop_bit 24 w))) n = bit w n"
    by cases (auto simp: bytes_word_le_def bit_simps)
qed

lemma length_word_bytes: "length (word_bytes bo w) = 4"
  by (cases bo) (simp_all add: word_bytes_def word_bytes_le_def)

lemma length_tobytes: "length (tobytes bo ws) = 4 * length ws"
  by (induction ws) (simp_all add: tobytes_def length_word_bytes)

lemma frombuffer_word_bytes:
  "frombuffer bo (word_bytes bo w @ bs) =
     (case frombuffer bo bs of Inl e \<Rightarrow> Inl e | Inr ws \<Rightarrow> Inr (w # ws))"
  by (cases bo; cases "frombuffer bo bs")
     (simp_all add: word_bytes_def word_bytes_le_def bytes_word_def bytes_word_le_bytes)

lemma frombuffer_tobytes: "frombuffer bo (tobytes bo ws) = Inr ws"
proof (induction ws)
  case Nil
  show ?case by (simp add: tobytes_def)
next
  case (Cons w ws)
  have "tobytes bo (w # ws) = word_bytes bo w @ tobytes bo ws" by (simp add: tobytes_def)
  then show ?case by (simp add: frombuffer_word_bytes Cons.IH)
qed

subsection \<open>The mapping written for a row, and the keyspace after ingestion\<close>

lemma stored_mapping_vectors:
  "map_of (stored_mapping E r) ''title_vector'' =
     Some (PBytes (tobytes (native_order E) (map (f32 E) (col_title_vector r))))"
  "map_of (stored_mapping E r) ''content_vector'' =
     Some (PBytes (tobytes (native_order E) (map (f32 E) (col_content_vector r))))"
  by (simp_all add: stored_mapping_def to_dict_def)



lemma nth_new_calls:
  assumes "calls s' = calls s @ map f rows" "i < length rows"
  shows "drop (length (calls s)) (calls s') ! i = f (rows ! i)"
  using assms by simp


lemma hset_effect_other: "k \<noteq> key \<Longrightarrow> hset_effect ks key m k = ks k"
  by (simp add: hset_effect_def)

lemma hset_effect_same:
  "\<exists>h. hset_effect ks key m key = Some h \<and> (\<forall>f v. map_of m f = Some v \<longrightarrow> h f = Some v)"
  by (cases "ks key") (simp_all add: hset_effect_def)

lemma foldl_hset_other:
  "k \<notin> set (map (storage_key prefix) rows) \<Longrightarrow>
   foldl (\<lambda>ks r. hset_effect ks (storage_key prefix r) (stored_mapping E r)) ks rows k = ks k"
  by (induction rows arbitrary: ks) (simp_all add: hset_effect_other)

lemma foldl_hset_lookup:
  assumes "distinct (map (storage_key prefix) rows)" "r \<in> set rows"
  shows "\<exists>h. foldl (\<lambda>ks r. hset_effect ks (storage_key prefix r) (stored_mapping E r)) ks rows
               (storage_key prefix r) = Some h
            \<and> (\<forall>f v. map_of (stored_mapping E r) f = Some v \<longrightarrow> h f = Some v)"
  using assms
proof (induction rows arbitrary: ks)
  case Nil
  then show ?case by simp
next
  case (Cons r0 rows)
  show ?case
  proof (cases "r \<in> set rows")
    case True
    then show ?thesis using Cons.IH [of "hset_effect ks (storage_key prefix r0) (stored_mapping E r0)"]
        Cons.prems(1) by simp
  next
    case False
    then have r: "r = r0" using Cons.prems(2) by simp
    have "storage_key prefix r0 \<notin> set (map (storage_key prefix) rows)"
      using Cons.prems(1) by simp
    then show ?thesis
      using hset_effect_same [of ks "storage_key prefix r0" "stored_mapping E r0"]
      by (simp add: r foldl_hset_other)
  qed
qed


subsection \<open>The two-row scenario\<close>

lemma demo_valid:
  "0 < length (heap demo_world)" "heap demo_world ! 0 = DataFrame demo_rows" "faults demo_world = []"
  by (simp_all add: demo_world_def)

lemma demo_success:
  "index_documents demo_env PREFIX 0 demo_world = (Inr (), snd (index_documents demo_env PREFIX 0 demo_world))"
  using index_documents_total [OF demo_valid, of demo_env PREFIX] by (simp add: prod_eq_iff)

lemma demo_mappings:
  "stored_mapping demo_env (demo_rows ! 0) =
     [(''id'', PInt 1), (''url'', PStr ''u/April''), (''title'', PStr ''April''),
      (''text'', PStr ''fourth month''),
      (''title_vector'', PBytes [0, 0, 0x80, 0x3F, 0, 0, 0, 0]),
      (''content_vector'', PBytes [0, 0, 0, 0, 0, 0, 0, 0x3F]),
      (''vector_id'', PStr ''0'')]"
  "stored_mapping demo_env (demo_rows ! 1) =
     [(''id'', PInt 12), (''url'', PStr ''u/Art''), (''title'', PStr ''Art''),
      (''text'', PStr ''creative activity''),
      (''title_vector'', PBytes [0, 0, 0, 0, 0, 0, 0x80, 0x3F]),
      (''content_vector'', PBytes [0, 0, 0, 0x40, 0, 0, 0x80, 0x3F]),
      (''vector_id'', PStr ''1'')]"
  by (simp_all add: stored_mapping_def to_dict_def demo_rows_def demo_env_def demo_f32_def
      tobytes_def word_bytes_def word_bytes_le_def)

lemma demo_keys:
  "PREFIX @ '':'' @ str_int (col_id (demo_rows ! 0)) = ''doc:1''"
  "PREFIX @ '':'' @ str_int (col_id (demo_rows ! 1)) = ''doc:12''"
  by code_simp+



lemma demo_index: "(0::nat) < length demo_rows" "(1::nat) < length demo_rows"
  by (simp_all add: demo_rows_def)

subsection \<open>Ingestion: the claims\<close>

text \<open>
  Claim C9. \<^const>\<open>index_documents\<close> does not change its \<open>documents\<close> argument: whatever
  the outcome of the call, the frame object holds the same rows afterwards, vector columns
  included, and so does every object that existed before the call. When the call
  succeeds, the objects it added are the per-row dictionaries, and those are what holds
  the byte strings.
\<close>

theorem index_documents_keeps_frame:
  assumes "documents < length (heap s)" "heap s ! documents = DataFrame rows"
  shows "heap (snd (index_documents E prefix documents s)) ! documents = DataFrame rows
       \<and> take (length (heap s)) (heap (snd (index_documents E prefix documents s))) = heap s
       \<and> (fst (index_documents E prefix documents s) = Inr () \<longrightarrow>
            heap (snd (index_documents E prefix documents s)) =
              heap s @ map (\<lambda>r. Dict (stored_mapping E r)) rows)"
proof -
  let ?s' = "snd (index_documents E prefix documents s)"
  have old: "take (length (heap s)) (heap ?s') = heap s"
    by (rule index_documents_old_heap)
  have "heap ?s' ! documents = take (length (heap s)) (heap ?s') ! documents"
    using assms(1) by simp
  then have here: "heap ?s' ! documents = DataFrame rows"
    using assms(2) by (simp only: old)
  have new: "heap ?s' = heap s @ map (\<lambda>r. Dict (stored_mapping E r)) rows"
    if "fst (index_documents E prefix documents s) = Inr ()"
  proof -
    from that have "index_documents E prefix documents s = (Inr (), ?s')"
      by (simp add: prod_eq_iff)
    then show ?thesis by (rule index_documents_trace(2) [OF assms])
  qed
  show ?thesis using here old new by blast
qed

text \<open>In the two-row scenario the frame still has the float lists and the copy has the bytes.\<close>

theorem index_documents_keeps_frame_witness:
  "0 < length (heap demo_world) \<and> heap demo_world ! 0 = DataFrame demo_rows
   \<and> fst (index_documents demo_env PREFIX 0 demo_world) = Inr ()
   \<and> heap (snd (index_documents demo_env PREFIX 0 demo_world)) ! 0 = DataFrame demo_rows
   \<and> heap (snd (index_documents demo_env PREFIX 0 demo_world)) =
       [DataFrame demo_rows,
        Dict (stored_mapping demo_env (demo_rows ! 0)),
        Dict (stored_mapping demo_env (demo_rows ! 1))]
   \<and> map_of (stored_mapping demo_env (demo_rows ! 0)) ''title_vector''
       = Some (PBytes [0, 0, 0x80, 0x3F, 0, 0, 0, 0])
   \<and> col_title_vector (demo_rows ! 0) = [1, 0]"
proof -
  note t = index_documents_keeps_frame [OF demo_valid(1,2), of demo_env PREFIX]
  have ok: "fst (index_documents demo_env PREFIX 0 demo_world) = Inr ()"
    by (rule index_documents_total [OF demo_valid])
  from t have 1: "heap (snd (index_documents demo_env PREFIX 0 demo_world)) ! 0 = DataFrame demo_rows"
    by (rule conjunct1)
  from t ok have "heap (snd (index_documents demo_env PREFIX 0 demo_world)) =
      heap demo_world @ map (\<lambda>r. Dict (stored_mapping demo_env r)) demo_rows"
    by blast
  then have 2: "heap (snd (index_documents demo_env PREFIX 0 demo_world)) =
       [DataFrame demo_rows,
        Dict (stored_mapping demo_env (demo_rows ! 0)),
        Dict (stored_mapping demo_env (demo_rows ! 1))]"
    by (simp add: demo_world_def) (simp add: demo_rows_def)
  have 3: "map_of (stored_mapping demo_env (demo_rows ! 0)) ''title_vector''
       = Some (PBytes [0, 0, 0x80, 0x3F, 0, 0, 0, 0])"
    by (simp add: demo_mappings)
  have 4: "col_title_vector (demo_rows ! 0) = [1, 0]" by (simp add: demo_rows_def)
  show ?thesis using demo_valid(1,2) ok 1 2 3 4 by blast
qed


text \<open>
  Claim C5. A successful \<^const>\<open>index_documents\<close> sends exactly one \<^verbatim>\<open>HSET\<close> per row of the
  frame, in row order and nothing else, the one for a row being keyed by the prefix, a
  colon and the decimal text of the row's \<open>id\<close>. The key determines the \<open>id\<close>: rows with
  different ids get different keys.
\<close>

theorem index_documents_one_write_per_record:
  assumes "documents < length (heap s)" "heap s ! documents = DataFrame rows"
    and "index_documents E prefix documents s = (Inr (), s')"
  shows "drop (length (calls s)) (calls s') =
           map (\<lambda>r. HSET (prefix @ '':'' @ str_int (col_id r)) (stored_mapping E r)) rows
       \<and> take (length (calls s)) (calls s') = calls s
       \<and> length (calls s') = length (calls s) + length rows
       \<and> (\<forall>r r'. (prefix @ '':'' @ str_int (col_id r) = prefix @ '':'' @ str_int (col_id r'))
                  = (col_id r = col_id r'))
       \<and> (distinct (map col_id rows) \<longrightarrow>
            distinct (map (\<lambda>r. prefix @ '':'' @ str_int (col_id r)) rows))"
proof -
  have c: "calls s' = calls s @ map (\<lambda>r. HSET (storage_key prefix r) (stored_mapping E r)) rows"
    by (rule index_documents_trace(1) [OF assms])
  have k: "\<And>r. storage_key prefix r = prefix @ '':'' @ str_int (col_id r)"
    by (simp add: storage_key_def)
  have i: "\<forall>r r'. (prefix @ '':'' @ str_int (col_id r) = prefix @ '':'' @ str_int (col_id r'))
                  = (col_id r = col_id r')"
    by (auto dest: str_int_inj)
  have d: "distinct (map col_id rows) \<longrightarrow>
            distinct (map (\<lambda>r. prefix @ '':'' @ str_int (col_id r)) rows)"
    using storage_key_distinct [of rows prefix] by (simp add: k [abs_def])
  have 1: "drop (length (calls s)) (calls s') =
           map (\<lambda>r. HSET (prefix @ '':'' @ str_int (col_id r)) (stored_mapping E r)) rows"
    by (simp add: c k)
  have 2: "take (length (calls s)) (calls s') = calls s" by (simp add: c)
  have 3: "length (calls s') = length (calls s) + length rows" by (simp add: c)
  show ?thesis
    by (intro conjI) (fact 1 2 3 i d)+
qed

text \<open>The two rows are written under \<^verbatim>\<open>doc:1\<close> and \<^verbatim>\<open>doc:12\<close>.\<close>

theorem index_documents_one_write_per_record_witness:
  "0 < length (heap demo_world) \<and> heap demo_world ! 0 = DataFrame demo_rows
   \<and> index_documents demo_env PREFIX 0 demo_world
       = (Inr (), snd (index_documents demo_env PREFIX 0 demo_world))
   \<and> calls (snd (index_documents demo_env PREFIX 0 demo_world)) =
       [HSET ''doc:1'' (stored_mapping demo_env (demo_rows ! 0)),
        HSET ''doc:12'' (stored_mapping demo_env (demo_rows ! 1))]
   \<and> distinct (map col_id demo_rows)
   \<and> distinct (map (\<lambda>r. PREFIX @ '':'' @ str_int (col_id r)) demo_rows)"
proof -
  note t = index_documents_one_write_per_record [OF demo_valid(1,2) demo_success]
  have e: "calls demo_world = []" by (simp add: demo_world_def)
  from t have "drop (length (calls demo_world)) (calls (snd (index_documents demo_env PREFIX 0 demo_world))) =
      map (\<lambda>r. HSET (PREFIX @ '':'' @ str_int (col_id r)) (stored_mapping demo_env r)) demo_rows"
    by (rule conjunct1)
  then have "calls (snd (index_documents demo_env PREFIX 0 demo_world)) =
      map (\<lambda>r. HSET (PREFIX @ '':'' @ str_int (col_id r)) (stored_mapping demo_env r)) demo_rows"
    by (simp add: e)
  also have "\<dots> = [HSET (PREFIX @ '':'' @ str_int (col_id (demo_rows ! 0))) (stored_mapping demo_env (demo_rows ! 0)),
        HSET (PREFIX @ '':'' @ str_int (col_id (demo_rows ! 1))) (stored_mapping demo_env (demo_rows ! 1))]"
    by (simp add: demo_rows_def)
  finally have 1: "calls (snd (index_documents demo_env PREFIX 0 demo_world)) =
       [HSET ''doc:1'' (stored_mapping demo_env (demo_rows ! 0)),
        HSET ''doc:12'' (stored_mapping demo_env (demo_rows ! 1))]"
    by (simp only: demo_keys)
  have 2: "distinct (map col_id demo_rows)" by (simp add: demo_rows_def)
  from t 2 have 3: "distinct (map (\<lambda>r. PREFIX @ '':'' @ str_int (col_id r)) demo_rows)"
    by blast
  show ?thesis using demo_valid(1,2) demo_success 1 2 3 by blast
qed





text \<open>
  Claim C1. In the mapping written for a row, each of the two vector fields is a byte
  string of exactly four bytes per element of the row's list, and reading the bytes back
  as 32-bit floats gives the row's list cast to 32-bit floats, element by element: the
  original up to that cast. Writing and reading back is the identity on every sequence of
  32-bit floats, in either byte order. When the ids of the frame are distinct, the hash
  found in the store under the row's key holds these same byte strings.
\<close>

theorem index_documents_vector_bytes:
  assumes "documents < length (heap s)" "heap s ! documents = DataFrame rows"
    and "index_documents E prefix documents s = (Inr (), s')"
    and "i < length rows"
  shows "\<exists>key m tb cb. drop (length (calls s)) (calls s') ! i = HSET key m
       \<and> map_of m ''title_vector'' = Some (PBytes tb)
       \<and> map_of m ''content_vector'' = Some (PBytes cb)
       \<and> length tb = 4 * length (col_title_vector (rows ! i))
       \<and> length cb = 4 * length (col_content_vector (rows ! i))
       \<and> frombuffer (native_order E) tb = Inr (map (f32 E) (col_title_vector (rows ! i)))
       \<and> frombuffer (native_order E) cb = Inr (map (f32 E) (col_content_vector (rows ! i)))
       \<and> (\<forall>bo ws. length (tobytes bo ws) = 4 * length ws \<and> frombuffer bo (tobytes bo ws) = Inr ws)
       \<and> (distinct (map col_id rows) \<longrightarrow>
            (\<exists>h. hashes s' (prefix @ '':'' @ str_int (col_id (rows ! i))) = Some h
                \<and> h ''title_vector'' = Some (PBytes tb)
                \<and> h ''content_vector'' = Some (PBytes cb)))"
proof -
  let ?r = "rows ! i"
  let ?tb = "tobytes (native_order E) (map (f32 E) (col_title_vector ?r))"
  let ?cb = "tobytes (native_order E) (map (f32 E) (col_content_vector ?r))"
  have c: "calls s' = calls s @ map (\<lambda>r. HSET (storage_key prefix r) (stored_mapping E r)) rows"
    by (rule index_documents_trace(1) [OF assms(1,2,3)])
  have n: "drop (length (calls s)) (calls s') ! i = HSET (storage_key prefix ?r) (stored_mapping E ?r)"
    by (rule nth_new_calls [OF c assms(4)])
  have ks: "hashes s' = foldl (\<lambda>ks r. hset_effect ks (storage_key prefix r) (stored_mapping E r))
                       (hashes s) rows"
    by (rule index_documents_trace(3) [OF assms(1,2,3)])
  have look: "\<exists>h. hashes s' (prefix @ '':'' @ str_int (col_id ?r)) = Some h
                \<and> h ''title_vector'' = Some (PBytes ?tb)
                \<and> h ''content_vector'' = Some (PBytes ?cb)"
    if d: "distinct (map col_id rows)"
  proof -
    have "?r \<in> set rows" using assms(4) by simp
    from foldl_hset_lookup [OF storage_key_distinct [OF d] this, of prefix E "hashes s"]
    obtain h where h: "hashes s' (storage_key prefix ?r) = Some h"
      "\<forall>f v. map_of (stored_mapping E ?r) f = Some v \<longrightarrow> h f = Some v"
      unfolding ks by blast
    from h(2) stored_mapping_vectors [of E ?r]
    have "h ''title_vector'' = Some (PBytes ?tb)" "h ''content_vector'' = Some (PBytes ?cb)"
      by blast+
    with h(1) show ?thesis by (simp add: storage_key_def)
  qed
  show ?thesis
  proof (intro exI conjI)
    show "drop (length (calls s)) (calls s') ! i = HSET (storage_key prefix ?r) (stored_mapping E ?r)"
      by (rule n)
    show "map_of (stored_mapping E ?r) ''title_vector'' = Some (PBytes ?tb)"
      by (rule stored_mapping_vectors)
    show "map_of (stored_mapping E ?r) ''content_vector'' = Some (PBytes ?cb)"
      by (rule stored_mapping_vectors)
    show "length ?tb = 4 * length (col_title_vector ?r)" by (simp add: length_tobytes)
    show "length ?cb = 4 * length (col_content_vector ?r)" by (simp add: length_tobytes)
    show "frombuffer (native_order E) ?tb = Inr (map (f32 E) (col_title_vector ?r))"
      by (rule frombuffer_tobytes)
    show "frombuffer (native_order E) ?cb = Inr (map (f32 E) (col_content_vector ?r))"
      by (rule frombuffer_tobytes)
    show "\<forall>bo ws. length (tobytes bo ws) = 4 * length ws \<and> frombuffer bo (tobytes bo ws) = Inr ws"
      by (simp add: length_tobytes frombuffer_tobytes)
    show "distinct (map col_id rows) \<longrightarrow>
            (\<exists>h. hashes s' (prefix @ '':'' @ str_int (col_id ?r)) = Some h
                \<and> h ''title_vector'' = Some (PBytes ?tb)
                \<and> h ''content_vector'' = Some (PBytes ?cb))"
      using look by blast
  qed
qed

text \<open>The first row of the scenario: \<open>[1.0, 0.0]\<close> is eight bytes and reads back as such.\<close>

theorem index_documents_vector_bytes_witness:
  "0 < length (heap demo_world) \<and> heap demo_world ! 0 = DataFrame demo_rows
   \<and> index_documents demo_env PREFIX 0 demo_world
       = (Inr (), snd (index_documents demo_env PREFIX 0 demo_world))
   \<and> (0::nat) < length demo_rows
   \<and> distinct (map col_id demo_rows)
   \<and> col_title_vector (demo_rows ! 0) = [1, 0]
   \<and> map (f32 demo_env) (col_title_vector (demo_rows ! 0)) = [0x3F800000, 0]
   \<and> (\<exists>key m tb cb h. drop (length (calls demo_world))
                  (calls (snd (index_documents demo_env PREFIX 0 demo_world))) ! 0 = HSET key m
         \<and> map_of m ''title_vector'' = Some (PBytes tb)
         \<and> map_of m ''content_vector'' = Some (PBytes cb)
         \<and> length tb = 8
         \<and> frombuffer LittleEndian tb = Inr [0x3F800000, 0]
         \<and> hashes (snd (index_documents demo_env PREFIX 0 demo_world)) ''doc:1'' = Some h
         \<and> h ''title_vector'' = Some (PBytes tb))"
proof -
  have d: "distinct (map col_id demo_rows)" by (simp add: demo_rows_def)
  have v: "col_title_vector (demo_rows ! 0) = [1, 0]" by (simp add: demo_rows_def)
  have f: "map (f32 demo_env) (col_title_vector (demo_rows ! 0)) = [0x3F800000, 0]"
    by (simp add: v) (simp add: demo_env_def demo_f32_def)
  have o: "native_order demo_env = LittleEndian" by (simp add: demo_env_def)
  from index_documents_vector_bytes [OF demo_valid(1,2) demo_success demo_index(1)] d
  obtain key m tb cb h where m:
    "drop (length (calls demo_world))
       (calls (snd (index_documents demo_env PREFIX 0 demo_world))) ! 0 = HSET key m"
    "map_of m ''title_vector'' = Some (PBytes tb)"
    "map_of m ''content_vector'' = Some (PBytes cb)"
    "length tb = 4 * length (col_title_vector (demo_rows ! 0))"
    "frombuffer (native_order demo_env) tb = Inr (map (f32 demo_env) (col_title_vector (demo_rows ! 0)))"
    "hashes (snd (index_documents demo_env PREFIX 0 demo_world))
       (PREFIX @ '':'' @ str_int (col_id (demo_rows ! 0))) = Some h"
    "h ''title_vector'' = Some (PBytes tb)"
    by blast
  have l: "length tb = 8" using m(4) by (simp add: v)
  have b: "frombuffer LittleEndian tb = Inr [0x3F800000, 0]" using m(5) by (simp only: o f)
  have k: "hashes (snd (index_documents demo_env PREFIX 0 demo_world)) ''doc:1'' = Some h"
    using m(6) by (simp only: demo_keys)
  show ?thesis
    using demo_valid(1,2) demo_success demo_index(1) d v f m(1,2,3) l b k m(7) by blast
qed


subsection \<open>Search: the query, the reply and the printed lines\<close>

lemma split_arrow_filter:
  "CHR ''='' \<notin> set F \<Longrightarrow> split_arrow (F @ ''=>'' @ rest) = (F, rest)"
proof (induction F)
  case Nil
  show ?case by simp
next
  case (Cons c F)
  then have c: "c \<noteq> CHR ''=''" and ih: "split_arrow (F @ ''=>'' @ rest) = (F, rest)" by auto
  obtain c' cs where e: "F @ CHR ''='' # CHR ''>'' # rest = c' # cs" by (cases F) auto
  show ?case using c ih by (simp add: e)
qed

lemma base_query_split:
  "base_query hybrid_fields k vector_field = hybrid_fields @ ''=>'' @ knn_clause k vector_field"
  by (simp add: base_query_def knn_clause_def)

lemma search_query_fields:
  "search_query return_flds hybrid_fields k vector_field =
     \<lparr>query_string = base_query hybrid_fields k vector_field,
      q_return_fields = return_flds, q_sortby = Some (''vector_score'', True),
      q_offset = 0, q_num = k, q_dialect = Some 2\<rparr>"
  by (simp add: search_query_def Query_def return_fields_def sort_by_def paging_def dialect_def)

lemma ft_search_calls: "calls (snd (ft_search E name q params s)) = calls s @ [FT_SEARCH name q params]"
  by (simp add: ft_search_def bind_action_def send_def split: list.splits option.splits)



lemma print_results_calls: "calls (snd (print_results E i docs s)) = calls s"
  by (induction docs arbitrary: i s) (simp_all split: sum.splits option.splits add: Let_def)


lemma search_redis_calls:
  assumes "embed E EMBEDDING_MODEL user_query = Inr embedded_query"
  shows "calls (snd (search_redis E user_query index_name vector_field return_flds hybrid_fields k s)) =
     calls s @ [FT_SEARCH index_name (search_query return_flds hybrid_fields k vector_field)
                  (params_dict E embedded_query)]"
proof -
  let ?q = "search_query return_flds hybrid_fields k vector_field"
  let ?p = "params_dict E embedded_query"
  obtain r s1 where f: "ft_search E index_name ?q ?p s = (r, s1)"
    by (cases "ft_search E index_name ?q ?p s")
  have c1: "calls s1 = calls s @ [FT_SEARCH index_name ?q ?p]"
    using ft_search_calls [of E index_name ?q ?p s] f by simp
  show ?thesis
  proof (cases r)
    case (Inl e)
    then show ?thesis using assms f c1 by (simp add: search_redis_def bind_action_def lift_def)
  next
    case (Inr docs)
    obtain r2 s2 where p: "print_results E 0 docs s1 = (r2, s2)" by (cases "print_results E 0 docs s1")
    have "calls s2 = calls s1" using print_results_calls [of E 0 docs s1] p by simp
    then show ?thesis
      using assms f c1 Inr p by (cases r2) (simp_all add: search_redis_def bind_action_def lift_def)
  qed
qed



lemma demo_embed: "embed demo_env EMBEDDING_MODEL ''modern art in Europe'' = Inr [1, 0]"
  by (simp add: demo_env_def)







subsection \<open>Search: the claims\<close>

text \<open>
  Claim C2. Once the query text has an embedding, \<^const>\<open>search_redis\<close> sends one search
  command: its expression is the filter expression, \<open>=>\<close>, and a \<open>KNN\<close> clause for \<open>k\<close>
  neighbours over the vector field bound to the parameter \<open>vector\<close>, which holds the bytes
  of the embedding cast to 32-bit floats; the query sorts ascending by \<open>vector_score\<close> and
  asks for the page \<open>(0, k)\<close>. A filter without \<open>=\<close> is exactly the part before the arrow;
  with the wildcard \<open>*\<close> that part is the wildcard alone, so nothing but the vector clause
  selects.
\<close>

theorem search_redis_submits_knn_query:
  assumes "embed E EMBEDDING_MODEL user_query = Inr embedded_query"
  shows "calls (snd (search_redis E user_query index_name vector_field return_flds hybrid_fields k s)) =
           calls s @ [FT_SEARCH index_name
             \<lparr>query_string = hybrid_fields @ ''=>[KNN '' @ str_int k @ '' @'' @ vector_field
                               @ '' $vector AS vector_score]'',
              q_return_fields = return_flds, q_sortby = Some (''vector_score'', True),
              q_offset = 0, q_num = k, q_dialect = Some 2\<rparr>
             [(''vector'', PBytes (tobytes (native_order E) (map (f32 E) embedded_query)))]]
       \<and> (CHR ''='' \<notin> set hybrid_fields \<longrightarrow>
            split_arrow (hybrid_fields @ ''=>[KNN '' @ str_int k @ '' @'' @ vector_field
                           @ '' $vector AS vector_score]'')
              = (hybrid_fields, ''[KNN '' @ str_int k @ '' @'' @ vector_field
                                  @ '' $vector AS vector_score]''))
       \<and> split_arrow (''*'' @ ''=>[KNN '' @ str_int k @ '' @'' @ vector_field
                           @ '' $vector AS vector_score]'')
              = (''*'', ''[KNN '' @ str_int k @ '' @'' @ vector_field @ '' $vector AS vector_score]'')"
proof -
  have q: "search_query return_flds hybrid_fields k vector_field =
      \<lparr>query_string = hybrid_fields @ ''=>[KNN '' @ str_int k @ '' @'' @ vector_field
                               @ '' $vector AS vector_score]'',
       q_return_fields = return_flds, q_sortby = Some (''vector_score'', True),
       q_offset = 0, q_num = k, q_dialect = Some 2\<rparr>"
    by (simp add: search_query_fields base_query_def)
  have p: "params_dict E embedded_query =
      [(''vector'', PBytes (tobytes (native_order E) (map (f32 E) embedded_query)))]"
    by (simp add: params_dict_def)
  have 1: "calls (snd (search_redis E user_query index_name vector_field return_flds hybrid_fields k s)) =
           calls s @ [FT_SEARCH index_name
             \<lparr>query_string = hybrid_fields @ ''=>[KNN '' @ str_int k @ '' @'' @ vector_field
                               @ '' $vector AS vector_score]'',
              q_return_fields = return_flds, q_sortby = Some (''vector_score'', True),
              q_offset = 0, q_num = k, q_dialect = Some 2\<rparr>
             [(''vector'', PBytes (tobytes (native_order E) (map (f32 E) embedded_query)))]]"
    using search_redis_calls [OF assms, of index_name vector_field return_flds hybrid_fields k s]
    by (simp only: q p)
  have 2: "split_arrow (F @ ''=>[KNN '' @ str_int k @ '' @'' @ vector_field
                           @ '' $vector AS vector_score]'')
              = (F, ''[KNN '' @ str_int k @ '' @'' @ vector_field @ '' $vector AS vector_score]'')"
    if "CHR ''='' \<notin> set F" for F
    using split_arrow_filter [OF that, of "knn_clause k vector_field"]
    by (simp add: knn_clause_def)
  have 3: "CHR ''='' \<notin> set ''*''" by simp
  show ?thesis
    using 1 2 [of hybrid_fields] 2 [OF 3] by blast
qed

text \<open>The default call of the notebook with \<open>k = 2\<close>.\<close>

theorem search_redis_submits_knn_query_witness:
  "embed demo_env EMBEDDING_MODEL ''modern art in Europe'' = Inr [1, 0]
   \<and> calls (snd (search_redis demo_env ''modern art in Europe'' INDEX_NAME ''title_vector''
                   [''title'', ''vector_score''] ''*'' 2 demo_world)) =
       [FT_SEARCH ''embeddings-index''
          \<lparr>query_string = ''*=>[KNN 2 @title_vector $vector AS vector_score]'',
           q_return_fields = [''title'', ''vector_score''], q_sortby = Some (''vector_score'', True),
           q_offset = 0, q_num = 2, q_dialect = Some 2\<rparr>
          [(''vector'', PBytes [0, 0, 0x80, 0x3F, 0, 0, 0, 0])]]
   \<and> split_arrow ''*=>[KNN 2 @title_vector $vector AS vector_score]''
       = (''*'', ''[KNN 2 @title_vector $vector AS vector_score]'')"
proof -
  note t = search_redis_submits_knn_query [OF demo_embed, of INDEX_NAME "''title_vector''"
      "[''title'', ''vector_score'']" "''*''" 2 demo_world]
  have k: "str_int 2 = ''2''" by code_simp
  have b: "tobytes (native_order demo_env) [f32 demo_env 1, f32 demo_env 0] = [0, 0, 0x80, 0x3F, 0, 0, 0, 0]"
    by (simp add: demo_env_def demo_f32_def tobytes_def word_bytes_def word_bytes_le_def)
  have c: "calls demo_world = []" by (simp add: demo_world_def)
  from t have 1: "calls (snd (search_redis demo_env ''modern art in Europe'' INDEX_NAME ''title_vector''
                   [''title'', ''vector_score''] ''*'' 2 demo_world)) =
       [FT_SEARCH ''embeddings-index''
          \<lparr>query_string = ''*=>[KNN 2 @title_vector $vector AS vector_score]'',
           q_return_fields = [''title'', ''vector_score''], q_sortby = Some (''vector_score'', True),
           q_offset = 0, q_num = 2, q_dialect = Some 2\<rparr>
          [(''vector'', PBytes [0, 0, 0x80, 0x3F, 0, 0, 0, 0])]]"
    by (simp add: k b c INDEX_NAME_def)
  from t have 2: "split_arrow ''*=>[KNN 2 @title_vector $vector AS vector_score]''
       = (''*'', ''[KNN 2 @title_vector $vector AS vector_score]'')"
    by (simp add: k)
  show ?thesis using demo_embed 1 2 by blast
qed





end
